theory Spec2Isabelle
  imports Complex_Main "HOL-Library.Log_Nat"
begin

section \<open>Values of the quiz data model\<close>

text \<open>
  The scoring code of \<^verbatim>\<open>src/components/Results.js\<close> works on JavaScript numbers, on
  arrays of numbers and on \<^verbatim>\<open>null\<close>/\<^verbatim>\<open>undefined\<close>. The code only ever compares
  numbers and puts them into sets, so a number is modelled by its exact value: a finite
  double is the rational it denotes (\<open>+0\<close> and \<open>-0\<close> are one value, as they are for
  \<^verbatim>\<open>===\<close> and for \<^verbatim>\<open>Set\<close>), and the three special values are constructors.
\<close>

datatype number = Finite rat | PosInfinity | NegInfinity | NaN

text \<open>
  \<^verbatim>\<open>a === b\<close> where each side is a number or \<^verbatim>\<open>undefined\<close> (\<open>None\<close>):
  \<^verbatim>\<open>undefined === undefined\<close> holds, \<^verbatim>\<open>NaN\<close> is unequal to everything.
\<close>

fun strict_equals :: "number option \<Rightarrow> number option \<Rightarrow> bool" where
  "strict_equals None None = True"
| "strict_equals (Some x) (Some y) = (x \<noteq> NaN \<and> y \<noteq> NaN \<and> x = y)"
| "strict_equals None (Some y) = False"
| "strict_equals (Some x) None = False"

text \<open>\<^verbatim>\<open>arr[i]\<close>: reading past the end of an array gives \<^verbatim>\<open>undefined\<close>.\<close>

definition elem_at :: "'a list \<Rightarrow> nat \<Rightarrow> 'a option" where
  "elem_at arr i = (if i < length arr then Some (arr ! i) else None)"

text \<open>
  \<^verbatim>\<open>new Set(arr)\<close>: the elements in insertion order, each kept once. Membership is
  SameValueZero, which on \<open>number\<close> is plain equality (\<^verbatim>\<open>NaN\<close> is found in a set).
\<close>

definition Set_add :: "number \<Rightarrow> number list \<Rightarrow> number list" where
  "Set_add x s = (if x \<in> set s then s else s @ [x])"

definition new_Set :: "number list \<Rightarrow> number list" where
  "new_Set arr = fold Set_add arr []"

definition Set_has :: "number list \<Rightarrow> number \<Rightarrow> bool" where
  "Set_has s x = (x \<in> set s)"

definition Set_size :: "number list \<Rightarrow> nat" where
  "Set_size s = length s"

text \<open>\<^verbatim>\<open>enum QuestionType\<close> and \<^verbatim>\<open>interface QuizQuestion\<close>; an optional field is an \<open>option\<close>.\<close>

datatype QuestionType = SINGLE_CHOICE | MULTIPLE_CHOICE | NUMERICAL | SUBJECTIVE

record QuizQuestion =
  question :: string
  questionType :: QuestionType
  options :: "string list option"
  correctAnswerIndices :: "number list option"
  numericalAnswer :: "number option"
  explanation :: string

text \<open>
  One slot of \<^verbatim>\<open>userAnswers: (number[] | number | null)[]\<close>, as the code reads it:
  \<open>Undefined\<close> is what \<^verbatim>\<open>userAnswers[index]\<close> gives when the array is too short.
\<close>

datatype answer = Null | Undefined | Number number | Array "number list"

definition answer_at :: "answer list \<Rightarrow> nat \<Rightarrow> answer" where
  "answer_at userAnswers index =
     (if index < length userAnswers then userAnswers ! index else Undefined)"

section \<open>calculateScore\<close>

text \<open>
  The inner \<^verbatim>\<open>userSelections.forEach\<close> of the \<^verbatim>\<open>MULTIPLE_CHOICE\<close> branch: it threads
  the two local variables \<^verbatim>\<open>anyWrongSelected\<close> and \<^verbatim>\<open>correctSelectedCount\<close>.
\<close>

definition tally_step :: "number list \<Rightarrow> number \<Rightarrow> bool \<times> nat \<Rightarrow> bool \<times> nat" where
  "tally_step correctSelections ans st =
     (case st of (anyWrongSelected, correctSelectedCount) \<Rightarrow>
        if Set_has correctSelections ans then (anyWrongSelected, correctSelectedCount + 1)
        else (True, correctSelectedCount))"

definition tally :: "number list \<Rightarrow> number list \<Rightarrow> bool \<times> nat" where
  "tally userSelections correctSelections =
     fold (tally_step correctSelections) userSelections (False, 0)"

text \<open>
  The body of the \<^verbatim>\<open>questions.forEach\<close> callback: it takes the running
  \<^verbatim>\<open>totalScore\<close> and gives the updated one.
\<close>

definition scoreQuestion :: "int \<Rightarrow> QuizQuestion \<Rightarrow> answer \<Rightarrow> int" where
  "scoreQuestion totalScore q userAnswer =
     (if userAnswer = Null \<or> userAnswer = Undefined then totalScore
      else case questionType q of
        SINGLE_CHOICE \<Rightarrow>
          (case userAnswer of
             Array ua \<Rightarrow>
               (case correctAnswerIndices q of
                  Some cai \<Rightarrow>
                    if strict_equals (elem_at ua 0) (elem_at cai 0) then totalScore + 4
                    else totalScore - 1
                | None \<Rightarrow> totalScore - 1)
           | _ \<Rightarrow> totalScore - 1)
      | NUMERICAL \<Rightarrow>
          (case userAnswer of
             Number x \<Rightarrow>
               if strict_equals (Some x) (numericalAnswer q) then totalScore + 4
               else totalScore
           | _ \<Rightarrow> totalScore)
      | MULTIPLE_CHOICE \<Rightarrow>
          (case userAnswer of
             Array ua \<Rightarrow>
               (case correctAnswerIndices q of
                  Some cai \<Rightarrow>
                    (let userSelections = new_Set ua;
                         correctSelections = new_Set cai
                     in case tally userSelections correctSelections of
                          (anyWrongSelected, correctSelectedCount) \<Rightarrow>
                            if \<not> anyWrongSelected then
                              if correctSelectedCount = Set_size correctSelections
                                 \<and> Set_size userSelections = Set_size correctSelections
                              then totalScore + 4
                              else totalScore + int correctSelectedCount
                            else totalScore)
                | None \<Rightarrow> totalScore)
           | _ \<Rightarrow> totalScore)
      | SUBJECTIVE \<Rightarrow> totalScore)"

text \<open>\<^verbatim>\<open>questions.forEach((q, index) => ...)\<close>, starting from \<^verbatim>\<open>totalScore = 0\<close>.\<close>

definition calculateScore :: "QuizQuestion list \<Rightarrow> answer list \<Rightarrow> int" where
  "calculateScore questions userAnswers =
     fold (\<lambda>(index, q) totalScore. scoreQuestion totalScore q (answer_at userAnswers index))
          (enumerate 0 questions) 0"

text \<open>What one question adds to the total: the callback run on \<^verbatim>\<open>totalScore = 0\<close>.\<close>

definition contribution :: "QuizQuestion \<Rightarrow> answer \<Rightarrow> int" where
  "contribution q userAnswer = scoreQuestion 0 q userAnswer"

section \<open>totalPossibleScore and scorePercentage\<close>

definition totalPossibleScore :: "QuizQuestion list \<Rightarrow> int" where
  "totalPossibleScore questions =
     foldl (\<lambda>acc q. if questionType q \<noteq> SUBJECTIVE then acc + 4 else acc) 0 questions"

text \<open>
  \<^verbatim>\<open>Math.max(0, score) / totalPossibleScore\<close> and the product with \<^verbatim>\<open>100\<close> are
  double-precision operations: each gives the exact result rounded to the nearest
  double, a tie going to the even significand. \<open>to_double\<close> is that rounding on the
  rationals, for the normal range of doubles (no underflow to subnormals, no overflow);
  the quotient of two positive integers below \<open>2 ^ 53\<close> and its product with \<open>100\<close>
  lie in that range. \<open>binade x\<close> is the exponent \<open>e\<close> with
  \<open>2 powi e \<le> x < 2 powi (e + 1)\<close>; a double has 53 significant bits, so its unit
  in the last place is \<open>2 powi (e - 52)\<close>.
\<close>

definition round_half_even :: "rat \<Rightarrow> int" where
  "round_half_even z =
     (let f = \<lfloor>z\<rfloor>; d = z - of_int f
      in if d < 1 / 2 then f
         else if 1 / 2 < d then f + 1
         else if even f then f else f + 1)"

definition binade :: "rat \<Rightarrow> int" where
  "binade x = (if 1 \<le> x then bitlen \<lfloor>x\<rfloor> - 1 else - bitlen (\<lceil>1 / x\<rceil> - 1))"

definition to_double :: "rat \<Rightarrow> rat" where
  "to_double x =
     (if x = 0 then 0
      else let ulp = 2 powi (binade \<bar>x\<bar> - 52)
           in sgn x * of_int (round_half_even (\<bar>x\<bar> / ulp)) * ulp)"

text \<open>
  \<^verbatim>\<open>Math.round\<close> gives the nearest integer, a tie going towards \<open>+\<infinity>\<close>; it is exact.
\<close>

definition Math_round :: "rat \<Rightarrow> int" where
  "Math_round x = \<lfloor>x + 1 / 2\<rfloor>"

text \<open>
  \<^verbatim>\<open>totalPossibleScore > 0 ? Math.round((Math.max(0, score) / totalPossibleScore) * 100) : 0\<close>.
  The two totals are integers, held exactly by a double as long as they stay below
  \<open>2 ^ 53\<close>.
\<close>

definition scorePercentage :: "QuizQuestion list \<Rightarrow> answer list \<Rightarrow> int" where
  "scorePercentage questions userAnswers =
     (let score = calculateScore questions userAnswers
      in if totalPossibleScore questions > 0
         then Math_round
                (to_double
                   (to_double (of_int (max 0 score) / of_int (totalPossibleScore questions))
                      * 100))
         else 0)"

text \<open>
  The component runs \<^verbatim>\<open>const score = calculateScore()\<close> with no check in front of it, and
  \<^verbatim>\<open>calculateScore\<close> has no \<^verbatim>\<open>throw\<close>: no read in it can fail on values of the declared
  types (an array read past its end gives \<^verbatim>\<open>undefined\<close>, every read of an optional
  field is guarded). Seen as a call that may signal an error, it returns on every path.
\<close>

datatype error = InvalidInput

definition score :: "QuizQuestion list \<Rightarrow> answer list \<Rightarrow> error + int" where
  "score questions userAnswers = Inr (calculateScore questions userAnswers)"

section \<open>isAnswerCompletelyCorrect\<close>

text \<open>
  The \<^verbatim>\<open>for (let item of userSet)\<close> loop with its early \<^verbatim>\<open>return false\<close>.
\<close>

fun all_in :: "number list \<Rightarrow> number list \<Rightarrow> bool" where
  "all_in [] correctSet = True"
| "all_in (item # rest) correctSet =
     (if \<not> Set_has correctSet item then False else all_in rest correctSet)"

definition isAnswerCompletelyCorrect :: "QuizQuestion \<Rightarrow> answer \<Rightarrow> bool" where
  "isAnswerCompletelyCorrect q userAnswer =
     (if userAnswer = Null \<or> userAnswer = Undefined then False
      else case questionType q of
        SINGLE_CHOICE \<Rightarrow>
          (case userAnswer of
             Array ua \<Rightarrow>
               (case correctAnswerIndices q of
                  Some cai \<Rightarrow> strict_equals (elem_at ua 0) (elem_at cai 0)
                | None \<Rightarrow> False)
           | _ \<Rightarrow> False)
      | NUMERICAL \<Rightarrow>
          (case userAnswer of
             Number x \<Rightarrow> strict_equals (Some x) (numericalAnswer q)
           | _ \<Rightarrow> False)
      | MULTIPLE_CHOICE \<Rightarrow>
          (let userSet = new_Set (case userAnswer of Array ua \<Rightarrow> ua | _ \<Rightarrow> []);
               correctSet = new_Set (case correctAnswerIndices q of Some cai \<Rightarrow> cai | None \<Rightarrow> [])
           in if Set_size userSet \<noteq> Set_size correctSet then False
              else all_in userSet correctSet)
      | SUBJECTIVE \<Rightarrow> False)"

section \<open>The data model of the specification\<close>

text \<open>
  \<^verbatim>\<open>new Set(question.correctAnswerIndices || [])\<close>: the correct set of a question, empty
  when the field is missing.
\<close>

definition correctSet :: "QuizQuestion \<Rightarrow> number set" where
  "correctSet q = set (case correctAnswerIndices q of Some cai \<Rightarrow> cai | None \<Rightarrow> [])"

text \<open>
  The invariants the specification puts on a question (section 3): options present and
  non-empty exactly for the choice kinds; the correct indices present exactly for the choice
  kinds, pairwise distinct valid positions of \<open>options\<close>, exactly one for
  \<open>SingleChoice\<close> and one or more for \<open>MultipleChoice\<close>; a real \<open>numericalAnswer\<close>
  present exactly for \<open>Numerical\<close>.
\<close>

definition is_index :: "nat \<Rightarrow> number \<Rightarrow> bool" where
  "is_index n x = (x \<in> set (map (\<lambda>k. Finite (of_nat k)) [0..<n]))"

definition spec_valid_question :: "QuizQuestion \<Rightarrow> bool" where
  "spec_valid_question q =
     (case questionType q of
        SINGLE_CHOICE \<Rightarrow>
          numericalAnswer q = None \<and>
          (case options q of
             None \<Rightarrow> False
           | Some os \<Rightarrow> os \<noteq> [] \<and>
               (case correctAnswerIndices q of
                  None \<Rightarrow> False
                | Some cai \<Rightarrow> length cai = 1 \<and> list_all (is_index (length os)) cai))
      | MULTIPLE_CHOICE \<Rightarrow>
          numericalAnswer q = None \<and>
          (case options q of
             None \<Rightarrow> False
           | Some os \<Rightarrow> os \<noteq> [] \<and>
               (case correctAnswerIndices q of
                  None \<Rightarrow> False
                | Some cai \<Rightarrow> cai \<noteq> [] \<and> distinct cai \<and> list_all (is_index (length os)) cai))
      | NUMERICAL \<Rightarrow>
          options q = None \<and> correctAnswerIndices q = None \<and>
          (case numericalAnswer q of Some (Finite r) \<Rightarrow> True | _ \<Rightarrow> False)
      | SUBJECTIVE \<Rightarrow>
          options q = None \<and> correctAnswerIndices q = None \<and> numericalAnswer q = None)"

text \<open>
  A submitted answer of the specification: absent, or a set of selected indices for a choice
  kind, or a real number for \<open>Numerical\<close>; a \<open>Subjective\<close> slot carries nothing.
\<close>

definition spec_valid_answer :: "QuizQuestion \<Rightarrow> answer \<Rightarrow> bool" where
  "spec_valid_answer q a =
     (case a of
        Null \<Rightarrow> True
      | Undefined \<Rightarrow> False
      | Number x \<Rightarrow>
          questionType q = NUMERICAL \<and> (case x of Finite r \<Rightarrow> True | _ \<Rightarrow> False)
      | Array ua \<Rightarrow>
          (questionType q = SINGLE_CHOICE \<or> questionType q = MULTIPLE_CHOICE) \<and> distinct ua \<and>
          (case options q of
             None \<Rightarrow> False
           | Some os \<Rightarrow> list_all (is_index (length os)) ua))"

definition spec_valid_input :: "QuizQuestion list \<Rightarrow> answer list \<Rightarrow> bool" where
  "spec_valid_input qs as =
     (length as = length qs \<and> list_all spec_valid_question qs
      \<and> list_all2 spec_valid_answer qs as)"

text \<open>
  The weaker invariants that matter to the verdict: the correct indices present and a
  singleton for \<open>SingleChoice\<close>, present and non-empty for \<open>MultipleChoice\<close>,
  \<open>numericalAnswer\<close> present for \<open>Numerical\<close>.
\<close>

definition well_formed :: "QuizQuestion \<Rightarrow> bool" where
  "well_formed q =
     (case questionType q of
        SINGLE_CHOICE \<Rightarrow>
          (case correctAnswerIndices q of Some cai \<Rightarrow> length cai = 1 | None \<Rightarrow> False)
      | MULTIPLE_CHOICE \<Rightarrow>
          (case correctAnswerIndices q of Some cai \<Rightarrow> cai \<noteq> [] | None \<Rightarrow> False)
      | NUMERICAL \<Rightarrow> numericalAnswer q \<noteq> None
      | SUBJECTIVE \<Rightarrow> True)"

text \<open>
  The verdict as the specification words it (section 4.1): the selected index set equals the
  correct set for the two choice kinds, the submitted number equals the target for
  \<open>Numerical\<close>, never for \<open>Subjective\<close> or an unanswered question.
\<close>

definition spec_fully_correct :: "QuizQuestion \<Rightarrow> answer \<Rightarrow> bool" where
  "spec_fully_correct q a =
     (case questionType q of
        SINGLE_CHOICE \<Rightarrow>
          (case a of
             Array ua \<Rightarrow>
               (case correctAnswerIndices q of Some cai \<Rightarrow> set ua = set cai | None \<Rightarrow> False)
           | _ \<Rightarrow> False)
      | MULTIPLE_CHOICE \<Rightarrow>
          (case a of
             Array ua \<Rightarrow>
               (case correctAnswerIndices q of Some cai \<Rightarrow> set ua = set cai | None \<Rightarrow> False)
           | _ \<Rightarrow> False)
      | NUMERICAL \<Rightarrow>
          (case a of
             Number x \<Rightarrow> (case numericalAnswer q of Some y \<Rightarrow> x = y | None \<Rightarrow> False)
           | _ \<Rightarrow> False)
      | SUBJECTIVE \<Rightarrow> False)"

section \<open>Example questions\<close>

text \<open>
  The questions of the specification's scenarios (section 8), and two
  \<open>MultipleChoice\<close> questions with five and with six options, all of them correct.
\<close>

definition single_q :: QuizQuestion where
  "single_q =
     \<lparr>question = ''Q1'', questionType = SINGLE_CHOICE,
      options = Some [''a'', ''b'', ''c'', ''d''],
      correctAnswerIndices = Some [Finite 1], numericalAnswer = None,
      explanation = ''E1''\<rparr>"

definition multi_q :: QuizQuestion where
  "multi_q =
     \<lparr>question = ''Q2'', questionType = MULTIPLE_CHOICE,
      options = Some [''a'', ''b'', ''c'', ''d''],
      correctAnswerIndices = Some [Finite 0, Finite 2], numericalAnswer = None,
      explanation = ''E2''\<rparr>"

definition numerical_q :: QuizQuestion where
  "numerical_q =
     \<lparr>question = ''Q3'', questionType = NUMERICAL, options = None,
      correctAnswerIndices = None, numericalAnswer = Some (Finite 42),
      explanation = ''E3''\<rparr>"

definition subjective_q :: QuizQuestion where
  "subjective_q =
     \<lparr>question = ''Q4'', questionType = SUBJECTIVE, options = None,
      correctAnswerIndices = None, numericalAnswer = None,
      explanation = ''E4''\<rparr>"

definition five_q :: QuizQuestion where
  "five_q =
     \<lparr>question = ''Q5'', questionType = MULTIPLE_CHOICE,
      options = Some [''a'', ''b'', ''c'', ''d'', ''e''],
      correctAnswerIndices = Some [Finite 0, Finite 1, Finite 2, Finite 3, Finite 4],
      numericalAnswer = None, explanation = ''E5''\<rparr>"

definition six_q :: QuizQuestion where
  "six_q =
     \<lparr>question = ''Q6'', questionType = MULTIPLE_CHOICE,
      options = Some [''a'', ''b'', ''c'', ''d'', ''e'', ''f''],
      correctAnswerIndices =
        Some [Finite 0, Finite 1, Finite 2, Finite 3, Finite 4, Finite 5],
      numericalAnswer = None, explanation = ''E6''\<rparr>"

section \<open>Facts about the set operations and the tally\<close>

lemma set_fold_Set_add: "set (fold Set_add arr s) = set arr \<union> set s"
  by (induction arr arbitrary: s) (auto simp: Set_add_def)

lemma distinct_fold_Set_add: "distinct s \<Longrightarrow> distinct (fold Set_add arr s)"
  by (induction arr arbitrary: s) (auto simp: Set_add_def)

lemma set_new_Set: "set (new_Set arr) = set arr"
  by (simp add: new_Set_def set_fold_Set_add)

lemma distinct_new_Set: "distinct (new_Set arr)"
  by (simp add: new_Set_def distinct_fold_Set_add)

lemma Set_size_new_Set: "Set_size (new_Set arr) = card (set arr)"
  using distinct_card [OF distinct_new_Set, of arr]
  by (simp add: Set_size_def set_new_Set)

lemma fold_tally_step:
  "fold (tally_step cs) us (w, n) =
     (w \<or> \<not> set us \<subseteq> set cs, n + length (filter (\<lambda>x. x \<in> set cs) us))"
  by (induction us arbitrary: w n) (auto simp: tally_step_def Set_has_def)

lemma tally_new_Set:
  "tally (new_Set ua) (new_Set cai) =
     (\<not> set ua \<subseteq> set cai, card (set ua \<inter> set cai))"
proof -
  have "length (filter (\<lambda>x. x \<in> set cai) (new_Set ua)) = card (set ua \<inter> set cai)"
  proof -
    have "distinct (filter (\<lambda>x. x \<in> set cai) (new_Set ua))"
      by (simp add: distinct_new_Set)
    then have "length (filter (\<lambda>x. x \<in> set cai) (new_Set ua))
                 = card (set (filter (\<lambda>x. x \<in> set cai) (new_Set ua)))"
      by (rule distinct_card [symmetric])
    also have "set (filter (\<lambda>x. x \<in> set cai) (new_Set ua)) = set ua \<inter> set cai"
      by (auto simp: set_new_Set)
    finally show ?thesis .
  qed
  then show ?thesis
    by (simp add: tally_def fold_tally_step set_new_Set)
qed

lemma psubset_by_element: "A \<subseteq> B \<Longrightarrow> x \<in> B \<Longrightarrow> x \<notin> A \<Longrightarrow> A \<subset> B"
  by blast

lemma all_in_iff: "all_in us cs = (set us \<subseteq> set cs)"
  by (induction us) (auto simp: Set_has_def)

text \<open>The callback only ever adds to the running total.\<close>

lemma scoreQuestion_contribution:
  "scoreQuestion totalScore q a = totalScore + contribution q a"
  by (simp add: scoreQuestion_def contribution_def Let_def
           split: QuestionType.splits answer.splits option.splits prod.splits)

section \<open>What one question contributes\<close>

lemma subset_card_eq_iff:
  "set ua \<subseteq> set cai \<Longrightarrow>
     (card (set ua \<inter> set cai) = card (set cai) \<and> card (set ua) = card (set cai))
       = (set ua = set cai)"
proof -
  assume sub: "set ua \<subseteq> set cai"
  then have inter: "set ua \<inter> set cai = set ua"
    by (rule Int_absorb2)
  have "card (set ua) = card (set cai) \<Longrightarrow> set ua = set cai"
    using sub by (simp add: card_subset_eq)
  then show ?thesis
    unfolding inter by auto
qed

lemma contribution_MULTIPLE_CHOICE:
  assumes "questionType q = MULTIPLE_CHOICE" and "correctAnswerIndices q = Some cai"
  shows "contribution q (Array ua) =
           (if set ua \<subseteq> set cai
            then (if set ua = set cai then 4 else int (card (set ua \<inter> set cai)))
            else 0)"
  using assms subset_card_eq_iff [of ua cai]
  by (simp add: contribution_def scoreQuestion_def tally_new_Set Set_size_new_Set)

lemma contribution_MULTIPLE_CHOICE_other:
  assumes "questionType q = MULTIPLE_CHOICE"
  shows "correctAnswerIndices q = None \<Longrightarrow> contribution q a = 0"
    and "contribution q (Number x) = 0"
  using assms
  by (simp_all add: contribution_def scoreQuestion_def split: answer.splits)

lemma contribution_SINGLE_CHOICE:
  assumes "questionType q = SINGLE_CHOICE"
  shows "contribution q a =
           (case a of
              Null \<Rightarrow> 0
            | Undefined \<Rightarrow> 0
            | Number x \<Rightarrow> - 1
            | Array ua \<Rightarrow>
                (case correctAnswerIndices q of
                   None \<Rightarrow> - 1
                 | Some cai \<Rightarrow>
                     if strict_equals (elem_at ua 0) (elem_at cai 0) then 4 else - 1))"
  using assms
  by (simp add: contribution_def scoreQuestion_def split: answer.splits option.splits)

lemma contribution_NUMERICAL:
  assumes "questionType q = NUMERICAL"
  shows "contribution q a =
           (case a of
              Number x \<Rightarrow> if strict_equals (Some x) (numericalAnswer q) then 4 else 0
            | _ \<Rightarrow> 0)"
  using assms
  by (simp add: contribution_def scoreQuestion_def split: answer.splits)

lemma contribution_SUBJECTIVE:
  "questionType q = SUBJECTIVE \<Longrightarrow> contribution q a = 0"
  by (simp add: contribution_def scoreQuestion_def)

lemma contribution_unanswered:
  "contribution q Null = 0" "contribution q Undefined = 0"
  by (simp_all add: contribution_def scoreQuestion_def)

lemma strict_equals_first:
  "strict_equals (elem_at ua 0) (elem_at [c] 0) = (\<exists>rest. ua = c # rest \<and> c \<noteq> NaN)"
  by (cases ua) (auto simp: elem_at_def)

section \<open>The total as a sum of contributions\<close>

lemma fold_enumerate_score:
  "fold (\<lambda>(index, q) totalScore. scoreQuestion totalScore q (answer_at as index))
        (enumerate n qs) t
     = t + (\<Sum>i<length qs. contribution (qs ! i) (answer_at as (n + i)))"
proof (induction qs arbitrary: n t)
  case Nil
  then show ?case by simp
next
  case (Cons q qs)
  have "(\<Sum>i<length (q # qs). contribution ((q # qs) ! i) (answer_at as (n + i)))
          = contribution q (answer_at as n)
            + (\<Sum>i<length qs. contribution (qs ! i) (answer_at as (Suc n + i)))"
    unfolding length_Cons sum.lessThan_Suc_shift by simp
  with Cons.IH [of "Suc n"] show ?case
    by (simp add: scoreQuestion_contribution [of t])
qed

lemma calculateScore_sum:
  "calculateScore qs as = (\<Sum>i<length qs. contribution (qs ! i) (answer_at as i))"
  using fold_enumerate_score [of as 0 qs 0] by (simp add: calculateScore_def)

lemma answer_at_tl: "answer_at as (Suc i) = answer_at (tl as) i"
  by (cases as) (simp_all add: answer_at_def)

lemma calculateScore_Nil: "calculateScore [] as = 0"
  by (simp add: calculateScore_def)

lemma calculateScore_Cons:
  "calculateScore (q # qs) as = contribution q (answer_at as 0) + calculateScore qs (tl as)"
  unfolding calculateScore_sum length_Cons sum.lessThan_Suc_shift
  by (simp add: answer_at_tl)

lemma calculateScore_append:
  "length as1 = length qs1 \<Longrightarrow>
     calculateScore (qs1 @ qs2) (as1 @ as2) = calculateScore qs1 as1 + calculateScore qs2 as2"
proof (induction qs1 arbitrary: as1)
  case Nil
  then show ?case by (simp add: calculateScore_Nil)
next
  case (Cons q qs1)
  then obtain a as1' where as1: "as1 = a # as1'" and len: "length as1' = length qs1"
    by (cases as1) auto
  show ?case
    using Cons.IH [OF len]
    by (simp add: as1 calculateScore_Cons answer_at_def)
qed

lemma foldl_possible:
  "foldl (\<lambda>acc q. if questionType q \<noteq> SUBJECTIVE then acc + 4 else acc) acc qs
     = acc + 4 * int (length (filter (\<lambda>q. questionType q \<noteq> SUBJECTIVE) qs))"
  by (induction qs arbitrary: acc) auto

section \<open>Bounds on the double-precision operations\<close>

text \<open>\<open>binade\<close> is the exponent of the power of two at or below a positive number.\<close>

lemma binade_bounds:
  assumes "0 < x"
  shows "2 powi (binade x) \<le> x \<and> x < 2 powi (binade x + 1)"
proof (cases "1 \<le> x")
  case True
  define n where "n = \<lfloor>x\<rfloor>"
  have n1: "1 \<le> n"
    using True by (simp add: n_def)
  then have b1: "1 \<le> bitlen n"
    using bitlen_ge_iff_power [of 1 n] by simp
  have bnd: "2 ^ nat (bitlen n - 1) \<le> n" "n < 2 ^ nat (bitlen n)"
    using bitlen_bounds [of n] n1 by simp_all
  have e: "binade x = bitlen n - 1"
    using True by (simp add: binade_def n_def)
  have lo: "(2::rat) powi (bitlen n - 1) = of_int (2 ^ nat (bitlen n - 1))"
    using b1 by (simp add: power_int_def)
  have hi: "(2::rat) powi (bitlen n - 1 + 1) = of_int (2 ^ nat (bitlen n))"
    using b1 by (simp add: power_int_def)
  have "of_int (2 ^ nat (bitlen n - 1)) \<le> (of_int n :: rat)"
    using bnd(1) by (simp only: of_int_le_iff)
  also have "\<dots> \<le> x"
    by (simp add: n_def)
  finally have 1: "2 powi (binade x) \<le> x"
    by (simp only: e lo)
  have "n + 1 \<le> 2 ^ nat (bitlen n)"
    using bnd(2) by simp
  then have "(of_int (n + 1) :: rat) \<le> of_int (2 ^ nat (bitlen n))"
    by (simp only: of_int_le_iff)
  moreover have "x < of_int (n + 1)"
    unfolding n_def by linarith
  ultimately have 2: "x < 2 powi (binade x + 1)"
    by (simp only: e hi)
  show ?thesis
    using 1 2 by simp
next
  case False
  define z where "z = 1 / x"
  define m where "m = \<lceil>z\<rceil> - 1"
  have z1: "1 < z"
    using False assms by (simp add: z_def)
  then have m1: "1 \<le> m"
    by (simp add: m_def less_ceiling_iff)
  have mz: "of_int m < z" "z \<le> of_int (m + 1)"
    unfolding m_def by linarith+
  have b1: "1 \<le> bitlen m"
    using bitlen_ge_iff_power [of 1 m] m1 by simp
  have bnd: "2 ^ nat (bitlen m - 1) \<le> m" "m < 2 ^ nat (bitlen m)"
    using bitlen_bounds [of m] m1 by simp_all
  have e: "binade x = - bitlen m"
    using False by (simp add: binade_def m_def z_def)
  have lo: "(2::rat) powi (- bitlen m) = 1 / of_int (2 ^ nat (bitlen m))"
  proof -
    have "bitlen m = int (nat (bitlen m))"
      using b1 by simp
    then have "(2::rat) powi (- bitlen m) = inverse (2 ^ nat (bitlen m))"
      by (metis power_int_minus power_int_of_nat)
    then show ?thesis
      by (simp add: divide_inverse)
  qed
  have hi: "(2::rat) powi (- bitlen m + 1) = 1 / of_int (2 ^ nat (bitlen m - 1))"
  proof -
    have "- bitlen m + 1 = - int (nat (bitlen m - 1))"
      using b1 by simp
    then have "(2::rat) powi (- bitlen m + 1) = inverse (2 ^ nat (bitlen m - 1))"
      by (metis power_int_minus power_int_of_nat)
    then show ?thesis
      by (simp add: divide_inverse)
  qed
  have "m + 1 \<le> 2 ^ nat (bitlen m)"
    using bnd(2) by simp
  then have "(of_int (m + 1) :: rat) \<le> of_int (2 ^ nat (bitlen m))"
    by (simp only: of_int_le_iff)
  then have "z \<le> of_int (2 ^ nat (bitlen m))"
    using mz(2) by linarith
  then have 1: "1 / of_int (2 ^ nat (bitlen m)) \<le> x"
    using assms by (simp add: z_def field_simps)
  have "(of_int (2 ^ nat (bitlen m - 1)) :: rat) \<le> of_int m"
    using bnd(1) by (simp only: of_int_le_iff)
  then have "of_int (2 ^ nat (bitlen m - 1)) < z"
    using mz(1) by linarith
  then have 2: "x < 1 / of_int (2 ^ nat (bitlen m - 1))"
    using assms by (simp add: z_def field_simps)
  show ?thesis
    using 1 2 by (simp only: e lo hi)
qed

text \<open>
  The rounding of the quotient shows in the result: 23 points of 40 are displayed as 57,
  where the exact value 57.5 would round to 58.
\<close>

lemma double_rounding_is_visible:
  "scorePercentage (replicate 10 single_q)
     (replicate 6 (Array [Finite 1]) @ [Array [Finite 0]] @ replicate 3 Null) = 57
   \<and> calculateScore (replicate 10 single_q)
     (replicate 6 (Array [Finite 1]) @ [Array [Finite 0]] @ replicate 3 Null) = 23
   \<and> totalPossibleScore (replicate 10 single_q) = 40
   \<and> Math_round (23 / 40 * 100) = 58"
  by code_simp

lemma round_half_even_le: "z \<le> of_int n \<Longrightarrow> round_half_even z \<le> n"
proof -
  assume le: "z \<le> of_int n"
  then have f: "\<lfloor>z\<rfloor> \<le> n"
    by (simp add: floor_le_iff)
  show ?thesis
  proof (cases "z = of_int \<lfloor>z\<rfloor>")
    case True
    then have "z - of_int \<lfloor>z\<rfloor> = 0" by simp
    then show ?thesis
      using f by (simp add: round_half_even_def Let_def)
  next
    case False
    then have "of_int \<lfloor>z\<rfloor> < z"
      using of_int_floor_le [of z] by linarith
    then have "of_int \<lfloor>z\<rfloor> < (of_int n :: rat)"
      using le by linarith
    then have "\<lfloor>z\<rfloor> + 1 \<le> n"
      by simp
    then show ?thesis
      by (simp add: round_half_even_def Let_def)
  qed
qed

lemma round_half_even_nonneg: "0 \<le> z \<Longrightarrow> 0 \<le> round_half_even z"
  by (simp add: round_half_even_def Let_def)

lemma binade_le_52:
  assumes "x \<le> of_int n" and "n < 2 ^ 53"
  shows "binade x \<le> 52"
proof (cases "1 \<le> x")
  case True
  have "\<lfloor>x\<rfloor> \<le> n"
    using assms(1) by (simp add: floor_le_iff)
  then have "\<lfloor>x\<rfloor> < 2 ^ 53"
    using assms(2) by (rule le_less_trans)
  then have "bitlen \<lfloor>x\<rfloor> \<le> 53"
    using bitlen_le_iff_power [of "\<lfloor>x\<rfloor>" 53] by simp
  then show ?thesis
    using True by (simp add: binade_def)
next
  case False
  then show ?thesis
    using bitlen_nonneg [of "\<lceil>1 / x\<rceil> - 1"] by (simp add: binade_def)
qed

lemma to_double_nonneg: "0 \<le> x \<Longrightarrow> 0 \<le> to_double x"
proof -
  assume "0 \<le> x"
  then have "0 \<le> round_half_even (\<bar>x\<bar> / 2 powi (binade \<bar>x\<bar> - 52))"
    by (intro round_half_even_nonneg) simp
  then show ?thesis
    using \<open>0 \<le> x\<close> by (simp add: to_double_def Let_def sgn_if)
qed

lemma to_double_le_int:
  assumes "0 \<le> x" and "x \<le> of_int n" and "n < 2 ^ 53"
  shows "to_double x \<le> of_int n"
proof (cases "x = 0")
  case True
  then show ?thesis
    using assms(2) by (simp add: to_double_def)
next
  case False
  then have pos: "0 < x"
    using assms(1) by simp
  define k where "k = nat (52 - binade x)"
  have "binade x \<le> 52"
    using assms(2,3) by (rule binade_le_52)
  then have e: "binade x - 52 = - int k"
    by (simp add: k_def)
  have ulp: "2 powi (binade x - 52) = inverse ((2::rat) ^ k)"
    unfolding e by (simp add: power_int_minus)
  have "x * 2 ^ k \<le> of_int n * 2 ^ k"
    using assms(2) by simp
  also have "\<dots> = of_int (n * 2 ^ k)"
    by simp
  finally have "round_half_even (x * 2 ^ k) \<le> n * 2 ^ k"
    by (rule round_half_even_le)
  then have "(of_int (round_half_even (x * 2 ^ k)) :: rat) \<le> of_int (n * 2 ^ k)"
    by (simp only: of_int_le_iff)
  then have "of_int (round_half_even (x * 2 ^ k)) * inverse ((2::rat) ^ k)
               \<le> of_int (n * 2 ^ k) * inverse (2 ^ k)"
    by (intro mult_right_mono) simp_all
  also have "\<dots> = of_int n"
    by simp
  finally show ?thesis
    using pos by (simp add: to_double_def Let_def ulp divide_inverse)
qed

lemma Math_round_bounds:
  "0 \<le> x \<Longrightarrow> 0 \<le> Math_round x" "x \<le> of_int n \<Longrightarrow> Math_round x \<le> n"
  by (simp_all add: Math_round_def floor_le_iff) 


section \<open>Bounds on the totals\<close>

lemma totalPossibleScore_filter:
  "totalPossibleScore qs = 4 * int (length (filter (\<lambda>q. questionType q \<noteq> SUBJECTIVE) qs))"
  using foldl_possible [of 0 qs] by (simp add: totalPossibleScore_def)

lemma totalPossibleScore_Cons:
  "totalPossibleScore (q # qs) =
     (if questionType q \<noteq> SUBJECTIVE then 4 else 0) + totalPossibleScore qs"
  by (simp add: totalPossibleScore_filter)

lemma totalPossibleScore_append:
  "totalPossibleScore (qs1 @ qs2) = totalPossibleScore qs1 + totalPossibleScore qs2"
  by (simp add: totalPossibleScore_filter)

lemma contribution_le:
  assumes "questionType q = MULTIPLE_CHOICE \<longrightarrow> card (correctSet q) \<le> 5"
  shows "contribution q a \<le> (if questionType q \<noteq> SUBJECTIVE then 4 else 0)"
proof (cases "questionType q")
  case SINGLE_CHOICE
  then show ?thesis
    by (simp add: contribution_SINGLE_CHOICE split: answer.splits option.splits)
next
  case NUMERICAL
  then show ?thesis
    by (simp add: contribution_NUMERICAL split: answer.splits)
next
  case SUBJECTIVE
  then show ?thesis
    by (simp add: contribution_SUBJECTIVE)
next
  case MULTIPLE_CHOICE
  show ?thesis
  proof (cases "correctAnswerIndices q")
    case None
    then show ?thesis
      by (simp add: MULTIPLE_CHOICE contribution_MULTIPLE_CHOICE_other)
  next
    case (Some cai)
    have five: "card (set cai) \<le> 5"
      using assms MULTIPLE_CHOICE Some by (simp add: correctSet_def)
    show ?thesis
    proof (cases a)
      case (Array ua)
      have "card (set ua \<inter> set cai) \<le> 4" if "set ua \<subseteq> set cai" "set ua \<noteq> set cai"
      proof -
        from that have "set ua \<subset> set cai" by blast
        then have "card (set ua) < card (set cai)"
          by (simp add: psubset_card_mono)
        moreover have "set ua \<inter> set cai = set ua"
          using that(1) by (rule Int_absorb2)
        ultimately show ?thesis
          using five by simp
      qed
      then show ?thesis
        by (simp add: Array MULTIPLE_CHOICE contribution_MULTIPLE_CHOICE [OF MULTIPLE_CHOICE Some])
    qed (simp_all add: MULTIPLE_CHOICE contribution_unanswered contribution_MULTIPLE_CHOICE_other)
  qed
qed

lemma calculateScore_le_possible:
  "\<forall>q\<in>set qs. questionType q = MULTIPLE_CHOICE \<longrightarrow> card (correctSet q) \<le> 5 \<Longrightarrow>
     calculateScore qs as \<le> totalPossibleScore qs"
proof (induction qs arbitrary: as)
  case Nil
  then show ?case
    by (simp add: calculateScore_Nil totalPossibleScore_filter)
next
  case (Cons q qs)
  have "contribution q (answer_at as 0) \<le> (if questionType q \<noteq> SUBJECTIVE then 4 else 0)"
    using Cons.prems by (intro contribution_le) simp
  moreover have "calculateScore qs (tl as) \<le> totalPossibleScore qs"
    using Cons.prems by (intro Cons.IH) simp
  ultimately show ?case
    unfolding calculateScore_Cons totalPossibleScore_Cons by linarith
qed

lemma calculateScore_pad:
  "calculateScore qs as =
     calculateScore qs (take (length qs) as @ replicate (length qs - length as) Null)"
proof -
  have "contribution (qs ! i) (answer_at as i) =
          contribution (qs ! i)
            (answer_at (take (length qs) as @ replicate (length qs - length as) Null) i)"
    if "i < length qs" for i
    using that by (auto simp: answer_at_def nth_append contribution_unanswered)
  then show ?thesis
    unfolding calculateScore_sum by simp
qed

section \<open>The verdict by kind\<close>

lemma verdict_SINGLE_CHOICE:
  assumes "questionType q = SINGLE_CHOICE"
  shows "isAnswerCompletelyCorrect q a =
           (case a of
              Array ua \<Rightarrow>
                (case correctAnswerIndices q of
                   Some cai \<Rightarrow> strict_equals (elem_at ua 0) (elem_at cai 0)
                 | None \<Rightarrow> False)
            | _ \<Rightarrow> False)"
  using assms by (simp add: isAnswerCompletelyCorrect_def split: answer.splits)

lemma verdict_NUMERICAL:
  assumes "questionType q = NUMERICAL"
  shows "isAnswerCompletelyCorrect q a =
           (case a of Number x \<Rightarrow> strict_equals (Some x) (numericalAnswer q) | _ \<Rightarrow> False)"
  using assms by (simp add: isAnswerCompletelyCorrect_def split: answer.splits)

lemma verdict_MULTIPLE_CHOICE:
  assumes "questionType q = MULTIPLE_CHOICE"
  shows "isAnswerCompletelyCorrect q a =
           (a \<noteq> Null \<and> a \<noteq> Undefined
            \<and> set (case a of Array ua \<Rightarrow> ua | _ \<Rightarrow> []) = correctSet q)"
proof -
  define us where "us = (case a of Array ua \<Rightarrow> ua | _ \<Rightarrow> [])"
  define cs where "cs = (case correctAnswerIndices q of Some cai \<Rightarrow> cai | None \<Rightarrow> [])"
  have eq: "(card (set us) = card (set cs) \<and> set us \<subseteq> set cs) = (set us = set cs)"
    using card_subset_eq [of "set cs" "set us"] by auto
  have "isAnswerCompletelyCorrect q a =
          (a \<noteq> Null \<and> a \<noteq> Undefined
           \<and> Set_size (new_Set us) = Set_size (new_Set cs)
           \<and> all_in (new_Set us) (new_Set cs))"
    unfolding isAnswerCompletelyCorrect_def Let_def us_def [symmetric] cs_def [symmetric]
    using assms by auto
  also have "\<dots> = (a \<noteq> Null \<and> a \<noteq> Undefined \<and> set us = set cs)"
    using eq by (simp add: Set_size_new_Set all_in_iff set_new_Set)
  finally show ?thesis
    unfolding correctSet_def us_def cs_def .
qed

lemma verdict_SUBJECTIVE:
  "questionType q = SUBJECTIVE \<Longrightarrow> \<not> isAnswerCompletelyCorrect q a"
  by (simp add: isAnswerCompletelyCorrect_def)

lemma verdict_unanswered:
  "\<not> isAnswerCompletelyCorrect q Null" "\<not> isAnswerCompletelyCorrect q Undefined"
  by (simp_all add: isAnswerCompletelyCorrect_def)

lemma strict_equals_Some: "strict_equals (Some x) y = (y = Some x \<and> x \<noteq> NaN)"
  by (cases y) auto

section \<open>Scoring rules by kind\<close>

text \<open>
  C1. For a \<open>MultipleChoice\<close> question (its correct indices present) and a submitted
  index set with no index outside the correct set, the contribution is exactly 4 when the submitted set equals the correct
  set, and exactly the number of correctly selected indices when the submitted set is a
  non-empty proper subset of the correct set.
\<close>

theorem multiple_choice_subset_credit:
  assumes "questionType q = MULTIPLE_CHOICE"
    and "correctAnswerIndices q = Some cai"
    and "set ua \<subseteq> set cai"
  shows "(set ua = set cai \<longrightarrow> contribution q (Array ua) = 4)
       \<and> (set ua \<noteq> {} \<and> set ua \<subset> set cai \<longrightarrow>
            contribution q (Array ua) = int (card (set ua \<inter> set cai))
            \<and> card (set ua \<inter> set cai) = card (set ua))"
proof -
  have "set ua \<inter> set cai = set ua"
    using assms(3) by (rule Int_absorb2)
  then show ?thesis
    using assms contribution_MULTIPLE_CHOICE [OF assms(1,2), of ua] by auto
qed

theorem multiple_choice_subset_credit_witness:
  "questionType multi_q = MULTIPLE_CHOICE
   \<and> correctAnswerIndices multi_q = Some [Finite 0, Finite 2]
   \<and> set [Finite 0] \<subseteq> set [Finite 0, Finite 2]
   \<and> set [Finite 0] \<noteq> {} \<and> set [Finite 0] \<subset> set [Finite 0, Finite 2]
   \<and> contribution multi_q (Array [Finite 0]) = 1
   \<and> contribution multi_q (Array [Finite 2, Finite 0]) = 4"
proof -
  have q: "questionType multi_q = MULTIPLE_CHOICE"
    "correctAnswerIndices multi_q = Some [Finite 0, Finite 2]"
    by (simp_all add: multi_q_def)
  have s1: "set [Finite 0] \<subseteq> set [Finite 0, Finite 2]"
    and s2: "set [Finite 2, Finite 0] \<subseteq> set [Finite 0, Finite 2]"
    by simp_all
  have p: "set [Finite 0] \<subset> set [Finite 0, Finite 2]"
    by (rule psubset_by_element [of _ _ "Finite 2"]) simp_all
  show ?thesis
    using q s1 p multiple_choice_subset_credit [OF q s1]
      multiple_choice_subset_credit [OF q s2]
    by auto
qed

text \<open>
  C2. For a \<open>MultipleChoice\<close> question and a submitted index set with at least one index
  that is not in the correct set, the contribution is exactly 0, however many correct
  indices are selected as well; nothing is subtracted.
\<close>

theorem multiple_choice_wrong_pick_scores_zero:
  assumes "questionType q = MULTIPLE_CHOICE"
    and "x \<in> set ua"
    and "x \<notin> correctSet q"
  shows "contribution q (Array ua) = 0"
proof (cases "correctAnswerIndices q")
  case None
  then show ?thesis
    using assms(1) by (simp add: contribution_MULTIPLE_CHOICE_other)
next
  case (Some cai)
  then have "\<not> set ua \<subseteq> set cai"
    using assms(2,3) by (auto simp: correctSet_def)
  then show ?thesis
    by (simp add: contribution_MULTIPLE_CHOICE [OF assms(1) Some])
qed

theorem multiple_choice_wrong_pick_scores_zero_witness:
  "questionType multi_q = MULTIPLE_CHOICE
   \<and> Finite 1 \<in> set [Finite 0, Finite 1]
   \<and> Finite 1 \<notin> correctSet multi_q
   \<and> contribution multi_q (Array [Finite 0, Finite 1]) = 0"
proof -
  have q: "questionType multi_q = MULTIPLE_CHOICE"
    by (simp add: multi_q_def)
  have m: "Finite 1 \<in> set [Finite 0, Finite 1]"
    by simp
  have w: "Finite 1 \<notin> correctSet multi_q"
    by (simp add: correctSet_def multi_q_def)
  show ?thesis
    using q m w multiple_choice_wrong_pick_scores_zero [OF q m w] by simp
qed

text \<open>
  C3 as stated does not hold: the code compares only the first element of the submitted
  array with the correct index. For the question with correct index 1, the submitted
  selection \<open>{1, 0}\<close> is not the singleton \<open>{1}\<close>, and it scores +4, not -1.
\<close>

theorem single_choice_extra_pick_counterexample:
  "questionType single_q = SINGLE_CHOICE
   \<and> correctAnswerIndices single_q = Some [Finite 1]
   \<and> set [Finite 1, Finite 0] \<noteq> {Finite 1}
   \<and> contribution single_q (Array [Finite 1, Finite 0]) = 4
   \<and> contribution single_q (Array [Finite 1, Finite 0]) \<noteq> - 1"
  by (simp add: single_q_def contribution_def scoreQuestion_def elem_at_def)

text \<open>
  C3, amended. For a \<open>SingleChoice\<close> question with the single correct index \<open>c\<close>: a
  submitted index array whose first element is \<open>c\<close> contributes +4, whatever else the
  array holds; every other submitted answer that is not absent contributes -1; an absent
  answer contributes 0.
\<close>

theorem single_choice_contribution:
  assumes "questionType q = SINGLE_CHOICE"
    and "correctAnswerIndices q = Some [c]"
    and "c \<noteq> NaN"
  shows "contribution q (Array (c # rest)) = 4
       \<and> (a \<noteq> Null \<and> a \<noteq> Undefined \<and> (\<forall>more. a \<noteq> Array (c # more)) \<longrightarrow>
            contribution q a = - 1)
       \<and> contribution q Null = 0
       \<and> contribution q Undefined = 0"
  using assms strict_equals_first [of _ c]
  by (auto simp: contribution_SINGLE_CHOICE split: answer.splits)

theorem single_choice_contribution_witness:
  "questionType single_q = SINGLE_CHOICE
   \<and> correctAnswerIndices single_q = Some [Finite 1]
   \<and> Finite 1 \<noteq> NaN
   \<and> contribution single_q (Array [Finite 1]) = 4
   \<and> contribution single_q (Array [Finite 0]) = - 1
   \<and> contribution single_q (Number (Finite 1)) = - 1
   \<and> contribution single_q Null = 0"
proof -
  have q: "questionType single_q = SINGLE_CHOICE"
    "correctAnswerIndices single_q = Some [Finite 1]"
    by (simp_all add: single_q_def)
  have n: "Finite 1 \<noteq> NaN"
    by simp
  show ?thesis
    using q n
      single_choice_contribution [OF q n, of "[]" "Array [Finite 0]"]
      single_choice_contribution [OF q n, of "[]" "Number (Finite 1)"]
    by simp
qed

text \<open>
  C4. For a \<open>Numerical\<close> question: a submitted number equal to \<open>numericalAnswer\<close>
  contributes +4, a submitted number different from it contributes 0, an absent answer
  contributes 0, and no input at all makes the contribution negative. (\<^verbatim>\<open>NaN\<close> is equal
  to no number, itself included.)
\<close>

theorem numerical_contribution:
  assumes "questionType q = NUMERICAL"
  shows "(numericalAnswer q = Some x \<and> x \<noteq> NaN \<longrightarrow> contribution q (Number x) = 4)
       \<and> (numericalAnswer q \<noteq> Some x \<longrightarrow> contribution q (Number x) = 0)
       \<and> contribution q (Number NaN) = 0
       \<and> contribution q Null = 0
       \<and> contribution q Undefined = 0
       \<and> 0 \<le> contribution q a"
  using assms
  by (auto simp: contribution_NUMERICAL strict_equals_Some split: answer.splits)

theorem numerical_contribution_witness:
  "questionType numerical_q = NUMERICAL
   \<and> numericalAnswer numerical_q = Some (Finite 42)
   \<and> contribution numerical_q (Number (Finite 42)) = 4
   \<and> numericalAnswer numerical_q \<noteq> Some (Finite (419 / 10))
   \<and> contribution numerical_q (Number (Finite (419 / 10))) = 0
   \<and> contribution numerical_q Null = 0
   \<and> 0 \<le> contribution numerical_q (Array [Finite 42])"
proof -
  have q: "questionType numerical_q = NUMERICAL"
    by (simp add: numerical_q_def)
  have t: "numericalAnswer numerical_q = Some (Finite 42)"
    and d: "numericalAnswer numerical_q \<noteq> Some (Finite (419 / 10))"
    by (simp_all add: numerical_q_def)
  show ?thesis
    using q t d
      numerical_contribution [OF q, of "Finite 42" "Array [Finite 42]"]
      numerical_contribution [OF q, of "Finite (419 / 10)" Null]
    by simp
qed

text \<open>
  C8 as stated does not hold: the partial credit is the number of picks and is not capped.
  With five correct options, the four picks \<open>{0, 1, 2, 3}\<close> are a non-empty strict subset
  of the correct set and contribute 4, which is not below 4.
\<close>

theorem partial_credit_reaches_four_counterexample:
  "questionType five_q = MULTIPLE_CHOICE
   \<and> 1 < card (correctSet five_q)
   \<and> set [Finite 0, Finite 1, Finite 2, Finite 3] \<noteq> {}
   \<and> set [Finite 0, Finite 1, Finite 2, Finite 3] \<subset> correctSet five_q
   \<and> \<not> contribution five_q (Array [Finite 0, Finite 1, Finite 2, Finite 3]) < 4"
proof -
  have q: "questionType five_q = MULTIPLE_CHOICE"
    "correctAnswerIndices five_q = Some [Finite 0, Finite 1, Finite 2, Finite 3, Finite 4]"
    by (simp_all add: five_q_def)
  have c: "correctSet five_q = {Finite 0, Finite 1, Finite 2, Finite 3, Finite 4}"
    by (simp add: correctSet_def five_q_def)
  have p: "set [Finite 0, Finite 1, Finite 2, Finite 3] \<subset> correctSet five_q"
    unfolding c by (rule psubset_by_element [of _ _ "Finite 4"]) simp_all
  have "contribution five_q (Array [Finite 0, Finite 1, Finite 2, Finite 3]) = 4"
    by (simp add: contribution_MULTIPLE_CHOICE [OF q])
  then show ?thesis
    using q(1) p by (simp add: c)
qed

text \<open>
  C8, amended. For a \<open>MultipleChoice\<close> question whose correct set has at most four
  members, a submitted non-empty strict subset of the correct set (so the correct set has
  more than one member) contributes the size of that subset, which is at least 1 and
  strictly less than 4.
\<close>

theorem partial_credit_below_four:
  assumes "questionType q = MULTIPLE_CHOICE"
    and "correctAnswerIndices q = Some cai"
    and "card (set cai) \<le> 4"
    and "set ua \<noteq> {}"
    and "set ua \<subset> set cai"
  shows "contribution q (Array ua) = int (card (set ua))
       \<and> 0 < contribution q (Array ua)
       \<and> contribution q (Array ua) < 4
       \<and> 1 < card (set cai)"
proof -
  have less: "card (set ua) < card (set cai)"
    using assms(5) by (simp add: psubset_card_mono)
  have pos: "0 < card (set ua)"
    using assms(4) by (simp add: card_gt_0_iff)
  have "set ua \<inter> set cai = set ua"
    using assms(5) by auto
  then have "contribution q (Array ua) = int (card (set ua))"
    using assms(5) by (auto simp: contribution_MULTIPLE_CHOICE [OF assms(1,2)])
  then show ?thesis
    using less pos assms(3) by simp
qed

theorem partial_credit_below_four_witness:
  "questionType multi_q = MULTIPLE_CHOICE
   \<and> correctAnswerIndices multi_q = Some [Finite 0, Finite 2]
   \<and> card (set [Finite 0, Finite 2]) \<le> 4
   \<and> set [Finite 2] \<noteq> {}
   \<and> set [Finite 2] \<subset> set [Finite 0, Finite 2]
   \<and> contribution multi_q (Array [Finite 2]) = 1
   \<and> contribution multi_q (Array [Finite 2]) < 4"
proof -
  have q: "questionType multi_q = MULTIPLE_CHOICE"
    "correctAnswerIndices multi_q = Some [Finite 0, Finite 2]"
    by (simp_all add: multi_q_def)
  have k: "card (set [Finite 0, Finite 2]) \<le> 4"
    by simp
  have e: "set [Finite 2] \<noteq> {}"
    by simp
  have p: "set [Finite 2] \<subset> set [Finite 0, Finite 2]"
    by (rule psubset_by_element [of _ _ "Finite 0"]) simp_all
  show ?thesis
    using q k e p partial_credit_below_four [OF q k e p] by simp
qed

section \<open>Verdict and score\<close>

text \<open>
  C6 as stated does not hold for \<open>SingleChoice\<close>: the verdict compares the first
  element of the submitted array with the correct index. The question and the submitted
  selection \<open>{1, 0}\<close> satisfy the data model, the selection differs from the correct set
  \<open>{1}\<close>, and the verdict is "fully correct".
\<close>

theorem verdict_extra_pick_counterexample:
  "spec_valid_question single_q
   \<and> spec_valid_answer single_q (Array [Finite 1, Finite 0])
   \<and> isAnswerCompletelyCorrect single_q (Array [Finite 1, Finite 0])
   \<and> \<not> spec_fully_correct single_q (Array [Finite 1, Finite 0])"
  by (simp add: spec_valid_question_def spec_valid_answer_def is_index_def upt_rec
        single_q_def isAnswerCompletelyCorrect_def spec_fully_correct_def elem_at_def)

text \<open>
  C6, amended. For a question with its answer fields in place (the correct indices present
  and a singleton for \<open>SingleChoice\<close>, present and non-empty for \<open>MultipleChoice\<close>,
  \<open>numericalAnswer\<close> present for \<open>Numerical\<close>) the verdict is "fully correct" if and
  only if: for \<open>SingleChoice\<close>, the submitted answer is an index array whose first
  element is the correct index; for \<open>Numerical\<close>, it is a number equal to the target;
  for \<open>MultipleChoice\<close>, it is an index array whose set of elements is the correct
  set. A \<open>Subjective\<close> question and an unanswered question are never fully correct.
\<close>

theorem fully_correct_iff:
  assumes "well_formed q"
  shows "(isAnswerCompletelyCorrect q a \<longleftrightarrow>
           (case questionType q of
              SINGLE_CHOICE \<Rightarrow>
                (\<exists>c rest. correctAnswerIndices q = Some [c] \<and> c \<noteq> NaN \<and> a = Array (c # rest))
            | NUMERICAL \<Rightarrow>
                (\<exists>x. numericalAnswer q = Some x \<and> x \<noteq> NaN \<and> a = Number x)
            | MULTIPLE_CHOICE \<Rightarrow>
                (\<exists>ua. a = Array ua \<and> set ua = correctSet q)
            | SUBJECTIVE \<Rightarrow> False))
       \<and> \<not> isAnswerCompletelyCorrect q Null
       \<and> \<not> isAnswerCompletelyCorrect q Undefined"
proof -
  have main: "isAnswerCompletelyCorrect q a \<longleftrightarrow>
           (case questionType q of
              SINGLE_CHOICE \<Rightarrow>
                (\<exists>c rest. correctAnswerIndices q = Some [c] \<and> c \<noteq> NaN \<and> a = Array (c # rest))
            | NUMERICAL \<Rightarrow>
                (\<exists>x. numericalAnswer q = Some x \<and> x \<noteq> NaN \<and> a = Number x)
            | MULTIPLE_CHOICE \<Rightarrow>
                (\<exists>ua. a = Array ua \<and> set ua = correctSet q)
            | SUBJECTIVE \<Rightarrow> False)"
  proof (cases "questionType q")
    case SINGLE_CHOICE
    with assms obtain c where c: "correctAnswerIndices q = Some [c]"
      by (auto simp: well_formed_def length_Suc_conv split: option.splits)
    show ?thesis
      by (auto simp: SINGLE_CHOICE verdict_SINGLE_CHOICE c strict_equals_first
            split: answer.splits)
  next
    case MULTIPLE_CHOICE
    with assms obtain cai where "correctAnswerIndices q = Some cai" and "cai \<noteq> []"
      by (auto simp: well_formed_def split: option.splits)
    then have "correctSet q \<noteq> {}"
      by (simp add: correctSet_def)
    then show ?thesis
      by (cases a) (auto simp: MULTIPLE_CHOICE verdict_MULTIPLE_CHOICE)
  next
    case NUMERICAL
    show ?thesis
      by (auto simp: NUMERICAL verdict_NUMERICAL strict_equals_Some split: answer.splits)
  next
    case SUBJECTIVE
    then show ?thesis
      by (simp add: verdict_SUBJECTIVE)
  qed
  show ?thesis
    using main by (simp add: verdict_unanswered)
qed

theorem fully_correct_iff_witness:
  "well_formed multi_q
   \<and> isAnswerCompletelyCorrect multi_q (Array [Finite 2, Finite 0])
   \<and> set [Finite 2, Finite 0] = correctSet multi_q
   \<and> \<not> isAnswerCompletelyCorrect multi_q (Array [Finite 0])
   \<and> well_formed single_q
   \<and> isAnswerCompletelyCorrect single_q (Array [Finite 1, Finite 0])
   \<and> \<not> isAnswerCompletelyCorrect single_q (Array [Finite 0, Finite 1])"
proof -
  have w1: "well_formed single_q"
    by (simp add: well_formed_def single_q_def)
  have t1: "questionType single_q = SINGLE_CHOICE"
    "correctAnswerIndices single_q = Some [Finite 1]"
    by (simp_all add: single_q_def)
  have w: "well_formed multi_q"
    by (simp add: well_formed_def multi_q_def)
  have t: "questionType multi_q = MULTIPLE_CHOICE"
    by (simp add: multi_q_def)
  have c: "correctSet multi_q = {Finite 0, Finite 2}"
    by (simp add: correctSet_def multi_q_def)
  have ne: "set [Finite 0] \<noteq> {Finite 0, Finite 2}"
    by auto
  show ?thesis
    using w fully_correct_iff [OF w, of "Array [Finite 2, Finite 0]"]
      fully_correct_iff [OF w, of "Array [Finite 0]"] ne
      w1 fully_correct_iff [OF w1, of "Array [Finite 1, Finite 0]"]
      fully_correct_iff [OF w1, of "Array [Finite 0, Finite 1]"]
    by (simp add: t c t1 insert_commute)
qed

text \<open>
  C10. For a question with its answer fields in place (as in C6) and any submitted answer:
  if the verdict is "fully correct", the question contributes exactly +4 to the score.
\<close>

theorem fully_correct_scores_four:
  assumes "well_formed q"
    and "isAnswerCompletelyCorrect q a"
  shows "contribution q a = 4"
proof (cases "questionType q")
  case SINGLE_CHOICE
  then show ?thesis
    using assms(2)
    by (auto simp: verdict_SINGLE_CHOICE contribution_SINGLE_CHOICE
          split: answer.splits option.splits)
next
  case MULTIPLE_CHOICE
  with assms(1) obtain cai where cai: "correctAnswerIndices q = Some cai" and ne: "cai \<noteq> []"
    by (auto simp: well_formed_def split: option.splits)
  from assms(2) obtain ua where ua: "a = Array ua" and eq: "set ua = set cai"
    using ne by (cases a) (auto simp: MULTIPLE_CHOICE verdict_MULTIPLE_CHOICE correctSet_def cai)
  show ?thesis
    by (simp add: ua eq contribution_MULTIPLE_CHOICE [OF MULTIPLE_CHOICE cai])
next
  case NUMERICAL
  then show ?thesis
    using assms(2)
    by (auto simp: verdict_NUMERICAL contribution_NUMERICAL split: answer.splits)
next
  case SUBJECTIVE
  then show ?thesis
    using assms(2) by (simp add: verdict_SUBJECTIVE)
qed

theorem fully_correct_scores_four_witness:
  "well_formed single_q
   \<and> isAnswerCompletelyCorrect single_q (Array [Finite 1])
   \<and> contribution single_q (Array [Finite 1]) = 4"
proof -
  have w: "well_formed single_q"
    by (simp add: well_formed_def single_q_def)
  have v: "isAnswerCompletelyCorrect single_q (Array [Finite 1])"
    by (simp add: isAnswerCompletelyCorrect_def single_q_def elem_at_def)
  show ?thesis
    using w v fully_correct_scores_four [OF w v] by simp
qed

section \<open>Totals, percentage and errors\<close>

text \<open>
  C9. For every question sequence, the empty one included, the total possible score is 4
  times the number of questions whose kind is not \<open>Subjective\<close>. A \<open>Subjective\<close>
  question contributes nothing whatever its answer slot holds: taking it and its slot out
  of the sequences changes neither the earned total nor the possible total.
\<close>

theorem possible_score_and_subjective:
  "totalPossibleScore qs = 4 * int (length (filter (\<lambda>q. questionType q \<noteq> SUBJECTIVE) qs))
   \<and> totalPossibleScore [] = 0
   \<and> (questionType q = SUBJECTIVE \<longrightarrow>
         contribution q a = 0
         \<and> totalPossibleScore (qs1 @ q # qs2) = totalPossibleScore (qs1 @ qs2)
         \<and> (length as1 = length qs1 \<longrightarrow>
              calculateScore (qs1 @ q # qs2) (as1 @ a # as2)
                = calculateScore (qs1 @ qs2) (as1 @ as2)))"
proof -
  have "calculateScore (qs1 @ q # qs2) (as1 @ a # as2) = calculateScore (qs1 @ qs2) (as1 @ as2)"
    if "questionType q = SUBJECTIVE" "length as1 = length qs1"
    using that
    by (simp add: calculateScore_append calculateScore_Cons answer_at_def
          contribution_SUBJECTIVE)
  then show ?thesis
    by (simp add: totalPossibleScore_filter contribution_SUBJECTIVE)
qed

theorem possible_score_and_subjective_witness:
  "questionType subjective_q = SUBJECTIVE
   \<and> length [Array [Finite 1]] = length [single_q]
   \<and> totalPossibleScore [single_q, subjective_q, numerical_q] = 8
   \<and> totalPossibleScore [single_q, numerical_q] = 8
   \<and> calculateScore [single_q, subjective_q, numerical_q]
        [Array [Finite 1], Array [Finite 0], Null]
      = calculateScore [single_q, numerical_q] [Array [Finite 1], Null]"
proof -
  have s: "questionType subjective_q = SUBJECTIVE"
    by (simp add: subjective_q_def)
  have t: "questionType single_q \<noteq> SUBJECTIVE" "questionType numerical_q \<noteq> SUBJECTIVE"
    by (simp_all add: single_q_def numerical_q_def)
  show ?thesis
    using s t
      possible_score_and_subjective [of "[single_q, subjective_q, numerical_q]"
        subjective_q "Array [Finite 0]" "[single_q]" "[numerical_q]" "[Array [Finite 1]]" "[Null]"]
    by simp
qed

text \<open>
  C7 as stated does not hold: nothing in the code compares the two lengths or signals an
  error. One question scored against no answers at all returns the total 0.
\<close>

theorem length_mismatch_no_error_counterexample:
  "length ([] :: answer list) \<noteq> length [single_q]
   \<and> score [single_q] [] = Inr 0
   \<and> score [single_q] [] \<noteq> Inl InvalidInput"
  by (simp add: score_def calculateScore_Cons calculateScore_Nil answer_at_def
        contribution_unanswered)

text \<open>
  C7, amended. The scoring call never signals an error. When the answer sequence is shorter
  than the question sequence the missing slots count as unanswered, and surplus answers are
  ignored: the result is that of the answers cut or padded with \<^verbatim>\<open>null\<close> to the length of
  the questions. A malformed answer value is scored as incorrect or unanswered: a number
  contributes -1 to a \<open>SingleChoice\<close> and 0 to a \<open>MultipleChoice\<close> question, an index
  array contributes 0 to a \<open>Numerical\<close> question.
\<close>

theorem score_never_fails:
  "(\<exists>total. score qs as = Inr total)
   \<and> score qs as \<noteq> Inl InvalidInput
   \<and> score qs as = score qs (take (length qs) as @ replicate (length qs - length as) Null)
   \<and> (questionType q = SINGLE_CHOICE \<longrightarrow> contribution q (Number x) = - 1)
   \<and> (questionType q = MULTIPLE_CHOICE \<longrightarrow> contribution q (Number x) = 0)
   \<and> (questionType q = NUMERICAL \<longrightarrow> contribution q (Array ua) = 0)"
proof -
  have "score qs as = score qs (take (length qs) as @ replicate (length qs - length as) Null)"
    unfolding score_def using calculateScore_pad [of qs as] by simp
  then show ?thesis
    by (simp add: score_def contribution_SINGLE_CHOICE contribution_NUMERICAL
          contribution_MULTIPLE_CHOICE_other)
qed

theorem score_never_fails_witness:
  "questionType single_q = SINGLE_CHOICE
   \<and> questionType numerical_q = NUMERICAL
   \<and> score [single_q, numerical_q] [Array [Finite 1]] = Inr 4
   \<and> score [single_q, numerical_q] [Array [Finite 1]]
      = score [single_q, numerical_q] [Array [Finite 1], Null]
   \<and> contribution single_q (Number (Finite 1)) = - 1
   \<and> questionType multi_q = MULTIPLE_CHOICE
   \<and> contribution multi_q (Number (Finite 1)) = 0
   \<and> contribution numerical_q (Array [Finite 42]) = 0"
proof -
  have t: "questionType single_q = SINGLE_CHOICE" "questionType numerical_q = NUMERICAL"
    "questionType multi_q = MULTIPLE_CHOICE"
    by (simp_all add: single_q_def numerical_q_def multi_q_def)
  have v: "score [single_q, numerical_q] [Array [Finite 1], Null] = Inr 4"
    by (simp add: score_def calculateScore_Cons calculateScore_Nil answer_at_def
          contribution_unanswered contribution_SINGLE_CHOICE t single_q_def elem_at_def)
  show ?thesis
    using t v
      score_never_fails [of "[single_q, numerical_q]" "[Array [Finite 1]]" single_q
        "Finite 1" "[]"]
      score_never_fails [of "[single_q, numerical_q]" "[Array [Finite 1]]" numerical_q
        "Finite 1" "[Finite 42]"]
      score_never_fails [of "[single_q, numerical_q]" "[Array [Finite 1]]" multi_q
        "Finite 1" "[]"]
    by simp
qed

text \<open>
  C5 as stated does not hold: the percentage can exceed 100 on an input that satisfies the
  data model. One \<open>MultipleChoice\<close> question with six options, all correct, and the five
  picks \<open>{0, 1, 2, 3, 4}\<close>: the partial credit is 5 of 4 possible points, shown as 125.
\<close>

theorem percentage_above_hundred_counterexample:
  "spec_valid_input [six_q] [Array [Finite 0, Finite 1, Finite 2, Finite 3, Finite 4]]
   \<and> calculateScore [six_q] [Array [Finite 0, Finite 1, Finite 2, Finite 3, Finite 4]] = 5
   \<and> totalPossibleScore [six_q] = 4
   \<and> scorePercentage [six_q] [Array [Finite 0, Finite 1, Finite 2, Finite 3, Finite 4]] = 125
   \<and> \<not> scorePercentage [six_q] [Array [Finite 0, Finite 1, Finite 2, Finite 3, Finite 4]]
          \<le> 100"
  by code_simp

text \<open>
  C5, amended. The displayed percentage is \<^verbatim>\<open>Math.round\<close> of
  \<open>max(0, earned) / possible \<times> 100\<close>, the quotient and the product each rounded to a
  double, when the total possible score is greater than 0, and 0 otherwise. It is never
  negative, on any input. It never exceeds 100 when every \<open>MultipleChoice\<close> question has
  at most five distinct correct indices.
\<close>

theorem scorePercentage_bounds:
  "scorePercentage qs as =
     (if 0 < totalPossibleScore qs
      then Math_round
             (to_double
                (to_double (of_int (max 0 (calculateScore qs as))
                              / of_int (totalPossibleScore qs)) * 100))
      else 0)
   \<and> 0 \<le> scorePercentage qs as
   \<and> ((\<forall>q\<in>set qs. questionType q = MULTIPLE_CHOICE \<longrightarrow> card (correctSet q) \<le> 5) \<longrightarrow>
        scorePercentage qs as \<le> 100)"
proof -
  define s where "s = max 0 (calculateScore qs as)"
  define t where "t = totalPossibleScore qs"
  define x :: rat where "x = of_int s / of_int t"
  have pct: "scorePercentage qs as =
               (if 0 < t then Math_round (to_double (to_double x * 100)) else 0)"
    by (simp add: scorePercentage_def Let_def s_def t_def x_def)
  have s0: "0 \<le> s"
    by (simp add: s_def)
  have x0: "0 \<le> x" if "0 < t"
    using that s0 by (simp add: x_def)
  have nonneg: "0 \<le> scorePercentage qs as"
  proof (cases "0 < t")
    case True
    then have "0 \<le> to_double x * 100"
      using to_double_nonneg [OF x0] by simp
    then have "0 \<le> Math_round (to_double (to_double x * 100))"
      by (intro Math_round_bounds(1) to_double_nonneg)
    then show ?thesis
      using True by (simp add: pct)
  next
    case False
    then show ?thesis
      by (simp add: pct)
  qed
  have upper: "scorePercentage qs as \<le> 100"
    if small: "\<forall>q\<in>set qs. questionType q = MULTIPLE_CHOICE \<longrightarrow> card (correctSet q) \<le> 5"
  proof (cases "0 < t")
    case True
    have "calculateScore qs as \<le> t"
      unfolding t_def using small by (rule calculateScore_le_possible)
    then have "s \<le> t"
      using True by (simp add: s_def)
    then have x1: "x \<le> of_int 1"
      using True by (simp add: x_def)
    have "to_double x \<le> of_int 1"
      using x0 [OF True] x1 by (rule to_double_le_int) simp
    then have y: "to_double x * 100 \<le> of_int 100"
      by simp
    have "0 \<le> to_double x * 100"
      using to_double_nonneg [OF x0 [OF True]] by simp
    then have "to_double (to_double x * 100) \<le> of_int 100"
      using y by (rule to_double_le_int) simp
    then have "Math_round (to_double (to_double x * 100)) \<le> 100"
      by (rule Math_round_bounds(2))
    then show ?thesis
      using True by (simp add: pct)
  next
    case False
    then show ?thesis
      by (simp add: pct)
  qed
  show ?thesis
    using nonneg upper by (simp add: scorePercentage_def Let_def)
qed

theorem scorePercentage_bounds_witness:
  "questionType single_q \<noteq> MULTIPLE_CHOICE
   \<and> card (correctSet multi_q) \<le> 5
   \<and> questionType numerical_q \<noteq> MULTIPLE_CHOICE
   \<and> scorePercentage [single_q, multi_q, numerical_q]
        [Array [Finite 0], Array [Finite 0], Number (Finite 42)] = 33
   \<and> 0 \<le> scorePercentage [single_q, multi_q, numerical_q]
        [Array [Finite 0], Array [Finite 0], Number (Finite 42)]
   \<and> scorePercentage [single_q, multi_q, numerical_q]
        [Array [Finite 0], Array [Finite 0], Number (Finite 42)] \<le> 100"
proof -
  have c: "card (correctSet multi_q) \<le> 5"
    by (simp add: correctSet_def multi_q_def)
  have k: "questionType single_q \<noteq> MULTIPLE_CHOICE"
    "questionType numerical_q \<noteq> MULTIPLE_CHOICE"
    by (simp_all add: single_q_def numerical_q_def)
  have h: "\<forall>q\<in>set [single_q, multi_q, numerical_q].
      questionType q = MULTIPLE_CHOICE \<longrightarrow> card (correctSet q) \<le> 5"
    using c k by simp
  have v: "scorePercentage [single_q, multi_q, numerical_q]
        [Array [Finite 0], Array [Finite 0], Number (Finite 42)] = 33"
    by code_simp
  show ?thesis
    using c k h v
      scorePercentage_bounds [of "[single_q, multi_q, numerical_q]"
        "[Array [Finite 0], Array [Finite 0], Number (Finite 42)]"]
    by simp
qed

end
